theory Spec2Isabelle
  imports Main "HOL-Library.Word"
begin

section \<open>Data model of \<open>app.py\<close>\<close>

type_synonym byte = "8 word"
type_synonym path = string

text \<open>
  The exceptions the modelled functions can raise: \<open>os.remove\<close> and \<open>open\<close> fail with
  an \<open>OSError\<close> (a missing file or directory, a directory where a file is expected or
  a file where a directory is expected, a refused permission), list indexing with
  \<open>IndexError\<close>, true division of an integer too large for a float with
  \<open>OverflowError\<close>.
\<close>

datatype exn =
  FileNotFoundError path
| PermissionError path
| IsADirectoryError path
| NotADirectoryError path
| IndexError
| OverflowError

text \<open>
  How a function of the script ends: it returns a value, an exception leaves it, or
  \<open>st.rerun()\<close> stops the script run and starts it again (Streamlit raises its rerun
  exception there, so no statement after the call is executed).
\<close>

datatype 'a outcome = Return 'a | Raise exn | Rerun

text \<open>
  One dictionary of \<open>st.session_state.uploaded_files\<close>, with the keys \<open>"name"\<close>,
  \<open>"path"\<close>, \<open>"type"\<close> and \<open>"size"\<close>.
\<close>

record file_info =
  name :: string
  path :: path
  ftype :: string
  fsize :: int

text \<open>
  An object handed over by \<open>st.file_uploader\<close>, as far as \<open>process_uploads\<close> looks at
  it: its attributes \<open>name\<close> and \<open>type\<close>, the bytes \<open>file.read()\<close> returns, and the
  bytes \<open>file.getvalue()\<close> returns (\<open>None\<close> when the object has no such attribute,
  the case \<open>hasattr(file, 'getvalue')\<close> tests).
\<close>

record uploaded_file =
  up_name :: string
  up_type :: string
  read :: "byte list"
  getvalue :: "byte list option"

text \<open>
  The file system, as far as the script reaches it: the contents of every existing
  file, the existing directories, and the paths on which the operating system refuses
  to create, overwrite or remove a file. A path is the string the script hands to
  \<open>open\<close> and \<open>os.remove\<close>; every path names its own file (there are no links, and a
  component \<open>..\<close> is a name like any other).
\<close>

record disk =
  contents :: "path \<rightharpoonup> byte list"
  dirs :: "path set"
  denied :: "path set"

text \<open>What the script shows through \<open>st.success\<close>, \<open>st.error\<close> and the upload banner.\<close>

datatype ui_msg = Success string | Error exn | UploadedBanner

text \<open>
  The state the functions work on. \<open>main\<close> sets \<open>uploaded_files\<close> to the empty list
  before any other function runs, so the key is always present.
\<close>

record session =
  uploaded_files :: "file_info list"
  disk :: disk
  ui :: "ui_msg list"

section \<open>Paths\<close>

text \<open>
  \<open>UPLOAD_DIR / file.name\<close> is the join of \<open>pathlib\<close>, on a POSIX system. A path is
  parsed into its root and its components: the string is split at every \<open>/\<close>, and the
  empty components and the components \<open>.\<close> are dropped. The root is \<open>//\<close> for a string
  that starts with exactly two slashes, \<open>/\<close> for any other string that starts with a
  slash, and empty otherwise.
\<close>

fun split_slash :: "string \<Rightarrow> string list" where
  "split_slash [] = [[]]"
| "split_slash (c # cs) =
     (if c = CHR ''/'' then [] # split_slash cs
      else (case split_slash cs of [] \<Rightarrow> [[c]] | x # xs \<Rightarrow> (c # x) # xs))"

fun join_slash :: "string list \<Rightarrow> string" where
  "join_slash [] = []"
| "join_slash [x] = x"
| "join_slash (x # y # ys) = x @ ''/'' @ join_slash (y # ys)"

definition path_root :: "string \<Rightarrow> string" where
  "path_root n =
     (if take 2 n = ''//'' \<and> take 3 n \<noteq> ''///'' then ''//''
      else if take 1 n = ''/'' then ''/''
      else [])"

definition path_parts :: "string \<Rightarrow> string list" where
  "path_parts n = filter (\<lambda>c. c \<noteq> [] \<and> c \<noteq> ''.'') (split_slash n)"

text \<open>
  \<open>dir / n\<close> for a relative directory \<open>dir\<close> with at least one component, as a string: a
  name with a root replaces the directory, any other name adds its components to those
  of the directory.
\<close>

definition path_join :: "path \<Rightarrow> string \<Rightarrow> path" where
  "path_join dir n =
     (if path_root n \<noteq> [] then path_root n @ join_slash (path_parts n)
      else join_slash (path_parts dir @ path_parts n))"

definition UPLOAD_DIR :: path where
  "UPLOAD_DIR = ''uploads''"

definition upload_path :: "string \<Rightarrow> path" where
  "upload_path n = path_join UPLOAD_DIR n"

section \<open>File system operations\<close>

text \<open>\<open>os.remove(p)\<close>.\<close>

definition os_remove :: "disk \<Rightarrow> path \<Rightarrow> exn + disk" where
  "os_remove d p =
     (if contents d p = None then
        (if p \<in> dirs d then Inl (IsADirectoryError p) else Inl (FileNotFoundError p))
      else if p \<in> denied d then Inl (PermissionError p)
      else Inr (d\<lparr>contents := (contents d)(p := None)\<rparr>))"

text \<open>
  The directories a path lies in, outermost first: \<open>uploads\<close> and \<open>uploads/sub\<close> for
  \<open>uploads/sub/a.pdf\<close>. For a path with a root the list starts with the root, which
  appears as the empty string (and as \<open>/\<close> after it, for the root \<open>//\<close>).
\<close>

definition ancestors :: "path \<Rightarrow> path list" where
  "ancestors p = (let cs = split_slash p in map (\<lambda>k. join_slash (take k cs)) [1..<length cs])"

text \<open>
  The error of \<open>open\<close> for the first of these that is not a directory: a file there
  gives \<open>NotADirectoryError\<close>, nothing there \<open>FileNotFoundError\<close>. The root always exists.
\<close>

fun missing_dir :: "disk \<Rightarrow> path list \<Rightarrow> path \<Rightarrow> exn option" where
  "missing_dir d [] p = None"
| "missing_dir d (a # rest) p =
     (if a = [] \<or> a = ''/'' \<or> a \<in> dirs d then missing_dir d rest p
      else if contents d a \<noteq> None then Some (NotADirectoryError p)
      else Some (FileNotFoundError p))"

text \<open>
  \<open>open(p, "wb")\<close> followed by \<open>write(bs)\<close>: every directory on the way has to exist,
  the path itself must not be a directory, and the operating system must permit the
  write; then the file holds \<open>bs\<close>.
\<close>

definition write_file :: "disk \<Rightarrow> path \<Rightarrow> byte list \<Rightarrow> exn + disk" where
  "write_file d p bs =
     (case missing_dir d (ancestors p) p of
        Some e \<Rightarrow> Inl e
      | None \<Rightarrow>
          if p \<in> dirs d \<or> p = ''/'' \<or> p = ''//'' then Inl (IsADirectoryError p)
          else if p \<in> denied d then Inl (PermissionError p)
          else Inr (d\<lparr>contents := (contents d)(p \<mapsto> bs)\<rparr>))"

section \<open>Statistics\<close>

definition get_file_stats :: "session \<Rightarrow> int \<times> int \<times> int" where
  "get_file_stats s =
     (let files = uploaded_files s;
          total_files = int (length files);
          pdf_count = sum_list (map (\<lambda>f. 1) (filter (\<lambda>f. ftype f = ''application/pdf'') files));
          pptx_count = total_files - pdf_count
      in (total_files, pdf_count, pptx_count))"

section \<open>Formatting a size\<close>

text \<open>\<open>str(i)\<close> for an integer: the decimal digits, after a minus sign when it is negative.\<close>

function digits :: "int \<Rightarrow> string" where
  "digits n =
     (if n < 10 then [''0123456789'' ! nat n]
      else digits (n div 10) @ [''0123456789'' ! nat (n mod 10)])"
  by pat_completeness auto
termination
  by (relation "measure nat") auto

declare digits.simps [simp del]

definition str_int :: "int \<Rightarrow> string" where
  "str_int i = (if i < 0 then ''-'' @ digits (- i) else digits i)"

text \<open>The quotient \<open>a / b\<close> rounded to the nearest integer, a tie to the even one (\<open>0 < b\<close>).\<close>

definition round_half_even :: "int \<Rightarrow> int \<Rightarrow> int" where
  "round_half_even a b =
     (let q = a div b; r = a mod b
      in if b < 2 * r \<or> (2 * r = b \<and> odd q) then q + 1 else q)"

text \<open>
  A double has 53 significant bits: \<open>shift53 n\<close> is the number of low bits of the
  positive integer \<open>n\<close> that do not fit, and \<open>to_double n\<close> the double nearest to \<open>n\<close>.
\<close>

function shift53 :: "int \<Rightarrow> nat" where
  "shift53 n = (if n < 2 ^ 53 then 0 else Suc (shift53 (n div 2)))"
  by pat_completeness auto
termination
  by (relation "measure nat") auto

declare shift53.simps [simp del]

definition to_double :: "int \<Rightarrow> int" where
  "to_double n = (let sh = shift53 n in round_half_even n (2 ^ sh) * 2 ^ sh)"

text \<open>
  \<open>n / d\<close> on Python integers, for \<open>0 < n\<close> and \<open>d\<close> a power of two: the double nearest
  to the exact quotient, which is \<open>to_double n / d\<close> (dividing by a power of two only
  changes the exponent). The result is that double's numerator over \<open>d\<close>; Python raises
  \<open>OverflowError\<close> when the quotient is too large for a double.
\<close>

definition truediv :: "int \<Rightarrow> int \<Rightarrow> exn + int" where
  "truediv n d =
     (let m = to_double n in if d * 2 ^ 1024 \<le> m then Inl OverflowError else Inr m)"

text \<open>
  The format \<open>:.1f\<close> of the non-negative double \<open>m / d\<close>: its exact value rounded to
  tenths (a tie to the even tenth), the integer part, a point and one digit.
\<close>

definition fmt_1f :: "int \<Rightarrow> int \<Rightarrow> string" where
  "fmt_1f m d =
     (let t = round_half_even (10 * m) d in str_int (t div 10) @ ''.'' @ str_int (t mod 10))"

definition format_file_size :: "int \<Rightarrow> exn + string" where
  "format_file_size size' =
     (if size' > 1024 * 1024 then
        (case truediv size' (1024 * 1024) of
           Inl e \<Rightarrow> Inl e
         | Inr m \<Rightarrow> Inr (fmt_1f m (1024 * 1024) @ '' MB''))
      else if size' > 1024 then
        (case truediv size' 1024 of
           Inl e \<Rightarrow> Inl e
         | Inr m \<Rightarrow> Inr (fmt_1f m 1024 @ '' KB''))
      else Inr (str_int size' @ '' bytes''))"

section \<open>Uploading\<close>

text \<open>
  The dictionary \<open>process_uploads\<close> appends for a file: the size is the length of
  \<open>file.getvalue()\<close>, and \<open>0\<close> for an object without that attribute.
\<close>

definition new_entry :: "uploaded_file \<Rightarrow> file_info" where
  "new_entry file =
     \<lparr>name = up_name file,
      path = upload_path (up_name file),
      ftype = up_type file,
      fsize = (case getvalue file of Some v \<Rightarrow> int (length v) | None \<Rightarrow> 0)\<rparr>"

text \<open>
  The loop of \<open>process_uploads\<close>, with the flag \<open>new_files_added\<close> as an argument. An
  exception of \<open>open\<close> leaves the loop with the session as it is at that point: the
  entries added before stay, the rest of the batch is not looked at.
\<close>

fun upload_loop :: "session \<Rightarrow> bool \<Rightarrow> uploaded_file list \<Rightarrow> session \<times> (exn + bool)" where
  "upload_loop s new_files_added [] = (s, Inr new_files_added)"
| "upload_loop s new_files_added (file # rest) =
     (let file_path = upload_path (up_name file);
          existing_names = map name (uploaded_files s)
      in if up_name file \<notin> set existing_names then
           (case write_file (disk s) file_path (read file) of
              Inl e \<Rightarrow> (s, Inl e)
            | Inr d \<Rightarrow>
                upload_loop
                  (s\<lparr>disk := d, uploaded_files := uploaded_files s @ [new_entry file]\<rparr>)
                  True rest)
         else upload_loop s new_files_added rest)"

definition process_uploads :: "session \<Rightarrow> uploaded_file list \<Rightarrow> session \<times> bool outcome" where
  "process_uploads s files =
     (if files = [] then (s, Return False)
      else
        (case upload_loop s False files of
           (s', Inl e) \<Rightarrow> (s', Raise e)
         | (s', Inr new_files_added) \<Rightarrow>
             if new_files_added then (s'\<lparr>ui := ui s' @ [UploadedBanner]\<rparr>, Rerun)
             else (s', Return new_files_added)))"

section \<open>Deleting\<close>

text \<open>\<open>xs.pop(j)\<close> for a position \<open>j\<close> of the list: the list without its element \<open>j\<close>.\<close>

definition pop :: "'a list \<Rightarrow> nat \<Rightarrow> 'a list" where
  "pop xs j = take j xs @ drop (Suc j) xs"

text \<open>
  Python's indexing: an index from \<open>-n\<close> to \<open>n - 1\<close> names a position of a list of
  length \<open>n\<close> (a negative one counts from the end), any other raises \<open>IndexError\<close>.
\<close>

definition position :: "'a list \<Rightarrow> int \<Rightarrow> exn + nat" where
  "position xs i =
     (let n = int (length xs)
      in if i < - n \<or> n \<le> i then Inl IndexError
         else Inr (nat (if i < 0 then n + i else i)))"

definition delete_file :: "session \<Rightarrow> int \<Rightarrow> session \<times> unit outcome" where
  "delete_file s index =
     (case position (uploaded_files s) index of
        Inl e \<Rightarrow> (s, Raise e)
      | Inr j \<Rightarrow>
          (let file_info = uploaded_files s ! j;
               s1 = (case os_remove (disk s) (path file_info) of
                       Inr d \<Rightarrow> s\<lparr>disk := d, ui := ui s @ [Success (''Deleted '' @ name file_info)]\<rparr>
                     | Inl e \<Rightarrow> s\<lparr>ui := ui s @ [Error e]\<rparr>)
           in (s1\<lparr>uploaded_files := pop (uploaded_files s1) j\<rparr>, Rerun)))"

text \<open>The loop of \<open>clear_all_files\<close>: every failure of \<open>os.remove\<close> is passed over.\<close>

fun remove_all :: "disk \<Rightarrow> file_info list \<Rightarrow> disk" where
  "remove_all d [] = d"
| "remove_all d (file_info # rest) =
     (case os_remove d (path file_info) of
        Inr d' \<Rightarrow> remove_all d' rest
      | Inl e \<Rightarrow> remove_all d rest)"

definition clear_all_files :: "session \<Rightarrow> session \<times> unit outcome" where
  "clear_all_files s =
     (s\<lparr>disk := remove_all (disk s) (uploaded_files s), uploaded_files := []\<rparr>, Rerun)"

section \<open>Sessions\<close>

text \<open>
  What a user can do to the store, and a session as the list of such actions, started
  by \<open>main\<close> on an empty store. An action that ends in an exception leaves the
  session as it is at that point, and the next action goes on from there.
\<close>

datatype action = AddFiles "uploaded_file list" | DeleteAt int | ClearAll

fun perform :: "session \<Rightarrow> action \<Rightarrow> session" where
  "perform s (AddFiles files) = fst (process_uploads s files)"
| "perform s (DeleteAt index) = fst (delete_file s index)"
| "perform s ClearAll = fst (clear_all_files s)"

definition initial :: "disk \<Rightarrow> session" where
  "initial d = \<lparr>uploaded_files = [], disk = d, ui = []\<rparr>"

definition run :: "disk \<Rightarrow> action list \<Rightarrow> session" where
  "run d actions = foldl perform (initial d) actions"

section \<open>Example data\<close>

text \<open>Uploads, entries and sessions on which the theorems below are instantiated.\<close>

text \<open>The disk after the start of the script: the upload directory, and no file.\<close>

abbreviation fresh_disk :: disk where
  "fresh_disk \<equiv> \<lparr>contents = Map.empty, dirs = {''uploads''}, denied = {}\<rparr>"

text \<open>The same disk, where the operating system refuses to write \<open>uploads/a.pdf\<close>.\<close>

abbreviation locked_disk :: disk where
  "locked_disk \<equiv> \<lparr>contents = Map.empty, dirs = {''uploads''}, denied = {''uploads/a.pdf''}\<rparr>"

abbreviation pdf_a :: uploaded_file where
  "pdf_a \<equiv> \<lparr>up_name = ''a.pdf'', up_type = ''application/pdf'', read = [1, 2, 3],
     getvalue = Some [1, 2, 3]\<rparr>"

abbreviation pdf_a_again :: uploaded_file where
  "pdf_a_again \<equiv> \<lparr>up_name = ''a.pdf'', up_type = ''application/pdf'', read = [9],
     getvalue = Some [9]\<rparr>"

abbreviation pptx_b :: uploaded_file where
  "pptx_b \<equiv> \<lparr>up_name = ''b.pptx'', up_type =
     ''application/vnd.openxmlformats-officedocument.presentationml.presentation'',
     read = [7, 8], getvalue = Some [7, 8]\<rparr>"

abbreviation entry_a :: file_info where
  "entry_a \<equiv> \<lparr>name = ''a.pdf'', path = ''uploads/a.pdf'', ftype = ''application/pdf'', fsize = 3\<rparr>"

abbreviation entry_b :: file_info where
  "entry_b \<equiv> \<lparr>name = ''b.pptx'', path = ''uploads/b.pptx'', ftype =
     ''application/vnd.openxmlformats-officedocument.presentationml.presentation'', fsize = 2\<rparr>"

text \<open>A session with two entries; the file of the first is not on the disk any more.\<close>

abbreviation orphaned :: session where
  "orphaned \<equiv>
     \<lparr>uploaded_files = [entry_a, entry_b],
      disk = \<lparr>contents = [''uploads/b.pptx'' \<mapsto> [7, 8]], dirs = {''uploads''},
              denied = {}\<rparr>,
      ui = []\<rparr>"

abbreviation entry_c :: file_info where
  "entry_c \<equiv> \<lparr>name = ''c.pdf'', path = ''uploads/c.pdf'', ftype = ''application/pdf'', fsize = 1\<rparr>"

text \<open>
  A session with three entries: the file of the first can be removed, the file of the
  second is missing, and the operating system refuses to remove the file of the third.
\<close>

abbreviation guarded :: session where
  "guarded \<equiv>
     \<lparr>uploaded_files = [entry_a, entry_b, entry_c],
      disk = \<lparr>contents = [''uploads/a.pdf'' \<mapsto> [1, 2, 3], ''uploads/c.pdf'' \<mapsto> [5]],
              dirs = {''uploads''}, denied = {''uploads/c.pdf''}\<rparr>,
      ui = []\<rparr>"

section \<open>The invariant of the store\<close>

definition unique_names :: "session \<Rightarrow> bool" where
  "unique_names s = distinct (map name (uploaded_files s))"

section \<open>Properties of the size formatter\<close>

text \<open>
  Below \<open>2 ^ 53\<close> an integer is a double, so the division by \<open>1024\<close> or by
  \<open>1024 * 1024\<close> is exact there. From \<open>2 ^ 53\<close> on, the double nearest to an integer \<open>n\<close>
  keeps its 53 leading bits, so it differs from \<open>n\<close> by at most \<open>n\<close> over \<open>2 ^ 53\<close>.
\<close>

lemma shift53_small: "n < 2 ^ 53 \<Longrightarrow> shift53 n = 0"
  by (simp add: shift53.simps)

lemma round_half_even_one: "round_half_even a 1 = a"
  by (simp add: round_half_even_def)

lemma to_double_small: "n < 2 ^ 53 \<Longrightarrow> to_double n = n"
  by (simp add: to_double_def shift53_small round_half_even_one)

lemma truediv_small:
  assumes "n < 2 ^ 53" and "1 \<le> d"
  shows "truediv n d = Inr n"
proof -
  have "(2::int) ^ 53 \<le> 2 ^ 1024"
    by (rule power_increasing) simp_all
  also have "\<dots> \<le> d * 2 ^ 1024"
    using assms(2) by (simp add: mult_le_cancel_right1)
  finally have "n < d * 2 ^ 1024"
    using assms(1) by linarith
  then show ?thesis
    using assms(1) by (simp add: truediv_def to_double_small)
qed

lemma round_half_even_near:
  assumes "0 < b"
  shows "2 * \<bar>a - round_half_even a b * b\<bar> \<le> b"
proof -
  define q where "q = a div b"
  define r where "r = a mod b"
  have a: "a = q * b + r" and r: "0 \<le> r" "r < b"
    using assms by (simp_all add: q_def r_def)
  show ?thesis
  proof (cases "b < 2 * r \<or> (2 * r = b \<and> odd q)")
    case True
    then have "round_half_even a b = q + 1"
      by (simp add: round_half_even_def q_def r_def Let_def)
    then have "a - round_half_even a b * b = r - b"
      using a by (simp add: algebra_simps)
    then show ?thesis using True r by auto
  next
    case False
    then have "round_half_even a b = q"
      by (simp add: round_half_even_def q_def r_def Let_def)
    then have "a - round_half_even a b * b = r"
      using a by (simp add: algebra_simps)
    then show ?thesis using False r by auto
  qed
qed

lemma shift53_bounds:
  "n div 2 ^ shift53 n < 2 ^ 53 \<and> (0 < shift53 n \<longrightarrow> 2 ^ 52 \<le> n div 2 ^ shift53 n)"
proof (induction n rule: shift53.induct)
  case (1 n)
  show ?case
  proof (cases "n < 2 ^ 53")
    case True
    then show ?thesis
      by (simp add: shift53_small)
  next
    case False
    then have sh: "shift53 n = Suc (shift53 (n div 2))"
      by (subst shift53.simps) simp
    have dd: "n div 2 ^ Suc (shift53 (n div 2)) = (n div 2) div 2 ^ shift53 (n div 2)"
      by (simp add: zdiv_zmult2_eq)
    from 1 False have ih: "(n div 2) div 2 ^ shift53 (n div 2) < 2 ^ 53 \<and>
        (0 < shift53 (n div 2) \<longrightarrow> 2 ^ 52 \<le> (n div 2) div 2 ^ shift53 (n div 2))"
      by simp
    show ?thesis
    proof (cases "0 < shift53 (n div 2)")
      case True
      with ih sh dd show ?thesis by simp
    next
      case zero: False
      then have "shift53 (n div 2) = 0" by simp
      moreover from False have "2 ^ 52 \<le> n div 2" by simp
      ultimately show ?thesis
        using ih sh dd by simp
    qed
  qed
qed

lemma to_double_near: "2 * \<bar>n - to_double n\<bar> \<le> 2 ^ shift53 n"
  using round_half_even_near [of "2 ^ shift53 n" n]
  by (simp add: to_double_def Let_def)

lemma shift53_large:
  assumes "2 ^ 53 \<le> n"
  shows "2 ^ (52 + shift53 n) \<le> n" and "n < 2 ^ (53 + shift53 n)"
proof -
  let ?k = "shift53 n"
  from assms have pos: "0 < ?k"
    by (subst shift53.simps) simp
  with shift53_bounds [of n] have q: "2 ^ 52 \<le> n div 2 ^ ?k" "n div 2 ^ ?k < 2 ^ 53"
    by simp_all
  have "(n div 2 ^ ?k) * 2 ^ ?k \<le> n"
  proof -
    have "0 \<le> n mod 2 ^ ?k"
      by simp
    with div_mult_mod_eq [of n "2 ^ ?k"] show ?thesis
      by linarith
  qed
  note le = this
  have "(2::int) ^ (52 + ?k) = 2 ^ 52 * 2 ^ ?k"
    by (rule power_add)
  also from q(1) have "\<dots> \<le> (n div 2 ^ ?k) * 2 ^ ?k"
    by (rule mult_right_mono) simp
  also note le
  finally show "2 ^ (52 + ?k) \<le> n" .
  have "n < (n div 2 ^ ?k + 1) * 2 ^ ?k"
  proof -
    have "n mod 2 ^ ?k < 2 ^ ?k"
      by simp
    moreover have "(n div 2 ^ ?k + 1) * 2 ^ ?k = (n div 2 ^ ?k) * 2 ^ ?k + 2 ^ ?k"
      by (simp add: algebra_simps)
    ultimately show ?thesis
      using div_mult_mod_eq [of n "2 ^ ?k"] by linarith
  qed
  also have "\<dots> \<le> 2 ^ 53 * 2 ^ ?k"
  proof (rule mult_right_mono)
    from q(2) show "n div 2 ^ ?k + 1 \<le> 2 ^ 53"
      by linarith
    show "(0::int) \<le> 2 ^ ?k"
      by simp
  qed
  also have "\<dots> = 2 ^ (53 + ?k)"
    by (rule power_add [symmetric])
  finally show "n < 2 ^ (53 + ?k)" .
qed

lemma to_double_relative:
  assumes "0 \<le> n"
  shows "2 ^ 53 * \<bar>n - to_double n\<bar> \<le> n"
proof (cases "n < 2 ^ 53")
  case True
  with assms show ?thesis
    by (simp add: to_double_small)
next
  case False
  then have "2 ^ (52 + shift53 n) \<le> n"
    by (intro shift53_large) simp
  moreover have "2 ^ 53 * \<bar>n - to_double n\<bar> \<le> 2 ^ 52 * 2 ^ shift53 n"
    using to_double_near [of n] by simp
  ultimately show ?thesis
    by (simp add: power_add)
qed

lemma to_double_ge_div: "(n div 2 ^ shift53 n) * 2 ^ shift53 n \<le> to_double n"
  by (simp add: to_double_def Let_def round_half_even_def mult_right_mono)

lemma to_double_overflow:
  assumes "2 ^ 1044 \<le> n"
  shows "2 ^ 1044 \<le> to_double n"
proof -
  have big: "(2::int) ^ 53 \<le> n"
  proof -
    have "(2::int) ^ 53 \<le> 2 ^ 1044"
      by (rule power_increasing) simp_all
    with assms show ?thesis by linarith
  qed
  let ?k = "shift53 n"
  from big have "n < 2 ^ (53 + ?k)"
    by (rule shift53_large)
  with assms have lt: "(2::int) ^ 1044 < 2 ^ (53 + ?k)"
    by linarith
  have "(1::int) < 2"
    by simp
  from this lt have "1044 < 53 + ?k"
    by (rule power_less_imp_less_exp)
  then have "(2::int) ^ 1044 \<le> 2 ^ (52 + ?k)"
    by (intro power_increasing) simp_all
  also have "\<dots> = 2 ^ 52 * 2 ^ ?k"
    by (simp add: power_add)
  also have "\<dots> \<le> (n div 2 ^ ?k) * 2 ^ ?k"
  proof -
    from big have "0 < ?k"
      by (subst shift53.simps) simp
    with shift53_bounds [of n] have "2 ^ 52 \<le> n div 2 ^ ?k"
      by simp
    then show ?thesis
      by (simp add: mult_right_mono)
  qed
  also have "\<dots> \<le> to_double n"
    by (rule to_double_ge_div)
  finally show ?thesis .
qed

lemma to_double_no_overflow:
  assumes "0 \<le> n" and "n < 2 ^ 1043"
  shows "to_double n < 2 ^ 1044"
proof -
  have "\<bar>n - to_double n\<bar> \<le> 2 ^ 53 * \<bar>n - to_double n\<bar>"
    by simp
  also have "\<dots> \<le> n"
    using assms(1) by (rule to_double_relative)
  finally have "to_double n \<le> 2 * n"
    by linarith
  also from assms(2) have "2 * n < 2 * 2 ^ 1043"
    by linarith
  finally show ?thesis
    by simp
qed

lemmas fmt_eval = format_file_size_def truediv_small fmt_1f_def round_half_even_def
  str_int_def digits.simps

text \<open>
  C7, as amended: the formatter returns \<open>"N bytes"\<close> for a size of at most 1024 and
  \<open>"X.Y KB"\<close> for a size above 1 KiB and at most 1 MiB, where \<open>X.Y\<close> is the size divided
  by 1024 to one decimal: the tenths \<open>t\<close> printed are within half a tenth of the
  quotient. For a size above 1 MiB the division is that of the double nearest to the
  size, which is the size itself below \<open>2 ^ 53\<close> and differs from it by at most the
  size over \<open>2 ^ 53\<close> in general: the formatter returns \<open>"X.Y MB"\<close>, where \<open>X.Y\<close> is that
  double divided by 1024 * 1024 to one decimal, as long as the double is below
  \<open>2 ^ 1044\<close> (as it is for every size below \<open>2 ^ 1043\<close>), and raises \<open>OverflowError\<close>
  once the double reaches \<open>2 ^ 1044\<close> (as it does for every size from \<open>2 ^ 1044\<close>
  on). The sizes 0, 1500, 5242880 and 2000000 give \<open>"0 bytes"\<close>, \<open>"1.5 KB"\<close>,
  \<open>"5.0 MB"\<close> and \<open>"1.9 MB"\<close>.
\<close>

theorem format_file_size_units:
  "(size' \<le> 1024 \<longrightarrow> format_file_size size' = Inr (str_int size' @ '' bytes'')) \<and>
   (1024 < size' \<and> size' \<le> 1024 * 1024 \<longrightarrow>
      (\<exists>t. format_file_size size' = Inr (str_int (t div 10) @ ''.'' @ str_int (t mod 10) @ '' KB'')
         \<and> 2 * \<bar>10 * size' - t * 1024\<bar> \<le> 1024)) \<and>
   (1024 * 1024 < size' \<and> size' < 2 ^ 53 \<longrightarrow>
      (\<exists>t. format_file_size size' = Inr (str_int (t div 10) @ ''.'' @ str_int (t mod 10) @ '' MB'')
         \<and> 2 * \<bar>10 * size' - t * (1024 * 1024)\<bar> \<le> 1024 * 1024)) \<and>
   (1024 * 1024 < size' \<and> to_double size' < 2 ^ 1044 \<longrightarrow>
      (\<exists>t. format_file_size size' = Inr (str_int (t div 10) @ ''.'' @ str_int (t mod 10) @ '' MB'')
         \<and> 2 * \<bar>10 * to_double size' - t * (1024 * 1024)\<bar> \<le> 1024 * 1024)) \<and>
   (1024 * 1024 < size' \<and> 2 ^ 1044 \<le> to_double size' \<longrightarrow>
      format_file_size size' = Inl OverflowError) \<and>
   (size' < 2 ^ 53 \<longrightarrow> to_double size' = size') \<and>
   (0 \<le> size' \<longrightarrow> 2 ^ 53 * \<bar>size' - to_double size'\<bar> \<le> size') \<and>
   (0 \<le> size' \<and> size' < 2 ^ 1043 \<longrightarrow> to_double size' < 2 ^ 1044) \<and>
   (2 ^ 1044 \<le> size' \<longrightarrow> 2 ^ 1044 \<le> to_double size') \<and>
   format_file_size 0 = Inr ''0 bytes'' \<and>
   format_file_size 1500 = Inr ''1.5 KB'' \<and>
   format_file_size 5242880 = Inr ''5.0 MB'' \<and>
   format_file_size 2000000 = Inr ''1.9 MB''"
proof (intro conjI impI)
  assume "size' \<le> 1024"
  then show "format_file_size size' = Inr (str_int size' @ '' bytes'')"
    by (simp add: format_file_size_def)
next
  assume kb: "1024 < size' \<and> size' \<le> 1024 * 1024"
  then have "truediv size' 1024 = Inr size'"
    by (intro truediv_small) simp_all
  with kb have "format_file_size size' = Inr (fmt_1f size' 1024 @ '' KB'')"
    by (simp add: format_file_size_def)
  moreover have "2 * \<bar>10 * size' - round_half_even (10 * size') 1024 * 1024\<bar> \<le> 1024"
    by (rule round_half_even_near) simp
  ultimately show "\<exists>t. format_file_size size' =
      Inr (str_int (t div 10) @ ''.'' @ str_int (t mod 10) @ '' KB'')
      \<and> 2 * \<bar>10 * size' - t * 1024\<bar> \<le> 1024"
    by (intro exI [of _ "round_half_even (10 * size') 1024"]) (simp add: fmt_1f_def Let_def)
next
  assume mb: "1024 * 1024 < size' \<and> size' < 2 ^ 53"
  then have "truediv size' (1024 * 1024) = Inr size'"
    by (intro truediv_small) simp_all
  with mb have "format_file_size size' = Inr (fmt_1f size' (1024 * 1024) @ '' MB'')"
    by (simp add: format_file_size_def)
  moreover have "2 * \<bar>10 * size' - round_half_even (10 * size') (1024 * 1024) * (1024 * 1024)\<bar>
      \<le> 1024 * 1024"
    by (rule round_half_even_near) simp
  ultimately show "\<exists>t. format_file_size size' =
      Inr (str_int (t div 10) @ ''.'' @ str_int (t mod 10) @ '' MB'')
      \<and> 2 * \<bar>10 * size' - t * (1024 * 1024)\<bar> \<le> 1024 * 1024"
    by (intro exI [of _ "round_half_even (10 * size') (1024 * 1024)"]) (simp add: fmt_1f_def Let_def)
next
  assume big: "1024 * 1024 < size' \<and> to_double size' < 2 ^ 1044"
  define m where "m = to_double size'"
  from big have "m < 2 ^ 1044"
    by (simp only: m_def)
  then have "truediv size' (1024 * 1024) = Inr m"
    by (simp add: truediv_def Let_def m_def [symmetric])
  with big have "format_file_size size' = Inr (fmt_1f m (1024 * 1024) @ '' MB'')"
    by (simp add: format_file_size_def)
  moreover have "2 * \<bar>10 * m - round_half_even (10 * m) (1024 * 1024) * (1024 * 1024)\<bar>
      \<le> 1024 * 1024"
    by (rule round_half_even_near) simp
  ultimately show "\<exists>t. format_file_size size' =
      Inr (str_int (t div 10) @ ''.'' @ str_int (t mod 10) @ '' MB'')
      \<and> 2 * \<bar>10 * to_double size' - t * (1024 * 1024)\<bar> \<le> 1024 * 1024"
    unfolding m_def [symmetric]
    by (intro exI [of _ "round_half_even (10 * m) (1024 * 1024)"]) (simp add: fmt_1f_def Let_def)
next
  assume over: "1024 * 1024 < size' \<and> 2 ^ 1044 \<le> to_double size'"
  define m where "m = to_double size'"
  from over have "2 ^ 1044 \<le> m"
    by (simp only: m_def)
  then have "truediv size' (1024 * 1024) = Inl OverflowError"
    by (simp add: truediv_def Let_def m_def [symmetric])
  with over show "format_file_size size' = Inl OverflowError"
    by (simp add: format_file_size_def)
next
  assume "size' < 2 ^ 53"
  then show "to_double size' = size'"
    by (rule to_double_small)
next
  assume "0 \<le> size'"
  then show "2 ^ 53 * \<bar>size' - to_double size'\<bar> \<le> size'"
    by (rule to_double_relative)
next
  assume "0 \<le> size' \<and> size' < 2 ^ 1043"
  then show "to_double size' < 2 ^ 1044"
    by (intro to_double_no_overflow) simp_all
next
  assume "2 ^ 1044 \<le> size'"
  then show "2 ^ 1044 \<le> to_double size'"
    by (rule to_double_overflow)
next
  show "format_file_size 0 = Inr ''0 bytes''"
    by (simp add: fmt_eval)
  show "format_file_size 1500 = Inr ''1.5 KB''"
    by (simp add: fmt_eval)
  show "format_file_size 5242880 = Inr ''5.0 MB''"
    by (simp add: fmt_eval)
  show "format_file_size 2000000 = Inr ''1.9 MB''"
    by (simp add: fmt_eval)
qed

theorem format_file_size_units_witness:
  "(700::int) \<le> 1024 \<and> format_file_size 700 = Inr (str_int 700 @ '' bytes'') \<and>
   ((1024::int) < 1500 \<and> (1500::int) \<le> 1024 * 1024) \<and>
   (\<exists>t. format_file_size 1500 = Inr (str_int (t div 10) @ ''.'' @ str_int (t mod 10) @ '' KB'')
      \<and> 2 * \<bar>10 * 1500 - t * 1024\<bar> \<le> 1024) \<and>
   ((1024::int) * 1024 < 2000000 \<and> (2000000::int) < 2 ^ 53) \<and>
   (\<exists>t. format_file_size 2000000 =
        Inr (str_int (t div 10) @ ''.'' @ str_int (t mod 10) @ '' MB'')
      \<and> 2 * \<bar>10 * 2000000 - t * (1024 * 1024)\<bar> \<le> 1024 * 1024) \<and>
   ((1024::int) * 1024 < 2 ^ 80 + 2 ^ 26 \<and> to_double (2 ^ 80 + 2 ^ 26) < 2 ^ 1044) \<and>
   (\<exists>t. format_file_size (2 ^ 80 + 2 ^ 26) =
        Inr (str_int (t div 10) @ ''.'' @ str_int (t mod 10) @ '' MB'')
      \<and> 2 * \<bar>10 * to_double (2 ^ 80 + 2 ^ 26) - t * (1024 * 1024)\<bar> \<le> 1024 * 1024) \<and>
   ((1024::int) * 1024 < 2 ^ 1044 \<and> (2::int) ^ 1044 \<le> to_double (2 ^ 1044)) \<and>
   format_file_size (2 ^ 1044) = Inl OverflowError \<and>
   2 ^ 53 * \<bar>(2 ^ 80 + 2 ^ 26) - to_double (2 ^ 80 + 2 ^ 26)\<bar> \<le> (2::int) ^ 80 + 2 ^ 26"
proof -
  have b: "(700::int) \<le> 1024"
    by simp
  have k: "(1024::int) < 1500 \<and> (1500::int) \<le> 1024 * 1024"
    by simp
  have m: "(1024::int) * 1024 < 2000000 \<and> (2000000::int) < 2 ^ 53"
    by simp
  have g: "(1024::int) * 1024 < 2 ^ 80 + 2 ^ 26 \<and> to_double (2 ^ 80 + 2 ^ 26) < 2 ^ 1044"
    by code_simp
  have o: "(1024::int) * 1024 < 2 ^ 1044 \<and> (2::int) ^ 1044 \<le> to_double (2 ^ 1044)"
    by code_simp
  have p: "(0::int) \<le> 2 ^ 80 + 2 ^ 26"
    by simp
  from b format_file_size_units [of 700]
  have "format_file_size 700 = Inr (str_int 700 @ '' bytes'')"
    by blast
  moreover from k format_file_size_units [of 1500]
  have "\<exists>t. format_file_size 1500 = Inr (str_int (t div 10) @ ''.'' @ str_int (t mod 10) @ '' KB'')
      \<and> 2 * \<bar>10 * 1500 - t * 1024\<bar> \<le> 1024"
    by blast
  moreover from m format_file_size_units [of 2000000]
  have "\<exists>t. format_file_size 2000000 =
        Inr (str_int (t div 10) @ ''.'' @ str_int (t mod 10) @ '' MB'')
      \<and> 2 * \<bar>10 * 2000000 - t * (1024 * 1024)\<bar> \<le> 1024 * 1024"
    by blast
  moreover from g format_file_size_units [of "2 ^ 80 + 2 ^ 26"]
  have "\<exists>t. format_file_size (2 ^ 80 + 2 ^ 26) =
        Inr (str_int (t div 10) @ ''.'' @ str_int (t mod 10) @ '' MB'')
      \<and> 2 * \<bar>10 * to_double (2 ^ 80 + 2 ^ 26) - t * (1024 * 1024)\<bar> \<le> 1024 * 1024"
    by blast
  moreover from o format_file_size_units [of "2 ^ 1044"]
  have "format_file_size (2 ^ 1044) = Inl OverflowError"
    by blast
  moreover from p format_file_size_units [of "2 ^ 80 + 2 ^ 26"]
  have "2 ^ 53 * \<bar>(2 ^ 80 + 2 ^ 26) - to_double (2 ^ 80 + 2 ^ 26)\<bar> \<le> (2::int) ^ 80 + 2 ^ 26"
    by blast
  ultimately show ?thesis
    using b k m g o by blast
qed

text \<open>
  C7 as stated fails for large sizes. For \<open>2 ^ 1044\<close> the division raises
  \<open>OverflowError\<close> and nothing is returned. For 9007199254793421 the formatter prints
  \<open>"8589934592.0 MB"\<close>, although the size divided by 1024 * 1024 is nearer to
  8589934592.1: the tenths 85899345920 are more than half a tenth away from the
  quotient, and the tenths 85899345921 are not.
\<close>

theorem format_file_size_large_counterexample:
  "format_file_size (2 ^ 1044) = Inl OverflowError \<and>
   format_file_size 9007199254793421 = Inr ''8589934592.0 MB'' \<and>
   (1024::int) * 1024 < 2 * \<bar>10 * 9007199254793421 - 85899345920 * (1024 * 1024)\<bar> \<and>
   2 * \<bar>10 * 9007199254793421 - 85899345921 * (1024 * 1024)\<bar> \<le> (1024::int) * 1024"
proof (intro conjI)
  show "format_file_size (2 ^ 1044) = Inl OverflowError"
    by code_simp
  show "format_file_size 9007199254793421 = Inr ''8589934592.0 MB''"
    by code_simp
qed simp_all

text \<open>
  C10: the thresholds are strict. A size of exactly 1024 is printed as
  \<open>"1024 bytes"\<close>, not \<open>"1.0 KB"\<close>, and a size of exactly 1048576 as \<open>"1024.0 KB"\<close>, not
  \<open>"1.0 MB"\<close>; one byte more gives the larger unit.
\<close>

theorem format_file_size_boundaries:
  "format_file_size 1024 = Inr ''1024 bytes'' \<and>
   format_file_size 1024 \<noteq> Inr ''1.0 KB'' \<and>
   format_file_size 1048576 = Inr ''1024.0 KB'' \<and>
   format_file_size 1048576 \<noteq> Inr ''1.0 MB'' \<and>
   format_file_size 1025 = Inr ''1.0 KB'' \<and>
   format_file_size 1048577 = Inr ''1.0 MB''"
  by (simp add: fmt_eval)

section \<open>Properties of the statistics\<close>

lemma sum_ones: "sum_list (map (\<lambda>f. 1) xs) = int (length xs)"
  by (induction xs) simp_all

text \<open>
  C5: for every store, \<open>get_file_stats\<close> returns the number of entries, the number of
  entries whose type is \<open>application/pdf\<close>, and their difference, which is the number
  of all other entries. A store of three PDF and two PPTX entries gives \<open>(5, 3, 2)\<close>.
\<close>

theorem get_file_stats_counts:
  "get_file_stats s =
     (int (length (uploaded_files s)),
      int (length (filter (\<lambda>f. ftype f = ''application/pdf'') (uploaded_files s))),
      int (length (uploaded_files s))
        - int (length (filter (\<lambda>f. ftype f = ''application/pdf'') (uploaded_files s)))) \<and>
   snd (snd (get_file_stats s)) =
     int (length (filter (\<lambda>f. ftype f \<noteq> ''application/pdf'') (uploaded_files s))) \<and>
   (length (uploaded_files s) = 5 \<and>
    length (filter (\<lambda>f. ftype f = ''application/pdf'') (uploaded_files s)) = 3 \<and>
    length (filter (\<lambda>f. ftype f =
      ''application/vnd.openxmlformats-officedocument.presentationml.presentation'')
      (uploaded_files s)) = 2
    \<longrightarrow> get_file_stats s = (5, 3, 2))"
proof -
  let ?fs = "uploaded_files s"
  let ?pdf = "\<lambda>f. ftype f = ''application/pdf''"
  have stats: "get_file_stats s =
      (int (length ?fs), int (length (filter ?pdf ?fs)),
       int (length ?fs) - int (length (filter ?pdf ?fs)))"
    by (simp add: get_file_stats_def Let_def sum_ones)
  have "length (filter ?pdf ?fs) + length (filter (\<lambda>f. \<not> ?pdf f) ?fs) = length ?fs"
    by (rule sum_length_filter_compl)
  then have others: "int (length ?fs) - int (length (filter ?pdf ?fs)) =
      int (length (filter (\<lambda>f. ftype f \<noteq> ''application/pdf'') ?fs))"
    by linarith
  show ?thesis
    using stats others by simp
qed

theorem get_file_stats_counts_witness:
  "get_file_stats
     \<lparr>uploaded_files =
        [\<lparr>name = ''a.pdf'', path = ''uploads/a.pdf'', ftype = ''application/pdf'', fsize = 3\<rparr>,
         \<lparr>name = ''b.pptx'', path = ''uploads/b.pptx'', ftype =
            ''application/vnd.openxmlformats-officedocument.presentationml.presentation'',
           fsize = 4\<rparr>,
         \<lparr>name = ''c.pdf'', path = ''uploads/c.pdf'', ftype = ''application/pdf'', fsize = 5\<rparr>,
         \<lparr>name = ''d.pptx'', path = ''uploads/d.pptx'', ftype =
            ''application/vnd.openxmlformats-officedocument.presentationml.presentation'',
           fsize = 6\<rparr>,
         \<lparr>name = ''e.pdf'', path = ''uploads/e.pdf'', ftype = ''application/pdf'', fsize = 7\<rparr>],
      disk = \<lparr>contents = Map.empty, dirs = {}, denied = {}\<rparr>, ui = []\<rparr> = (5, 3, 2)"
  using get_file_stats_counts [of
     "\<lparr>uploaded_files =
        [\<lparr>name = ''a.pdf'', path = ''uploads/a.pdf'', ftype = ''application/pdf'', fsize = 3\<rparr>,
         \<lparr>name = ''b.pptx'', path = ''uploads/b.pptx'', ftype =
            ''application/vnd.openxmlformats-officedocument.presentationml.presentation'',
           fsize = 4\<rparr>,
         \<lparr>name = ''c.pdf'', path = ''uploads/c.pdf'', ftype = ''application/pdf'', fsize = 5\<rparr>,
         \<lparr>name = ''d.pptx'', path = ''uploads/d.pptx'', ftype =
            ''application/vnd.openxmlformats-officedocument.presentationml.presentation'',
           fsize = 6\<rparr>,
         \<lparr>name = ''e.pdf'', path = ''uploads/e.pdf'', ftype = ''application/pdf'', fsize = 7\<rparr>],
      disk = \<lparr>contents = Map.empty, dirs = {}, denied = {}\<rparr>, ui = []\<rparr>"]
  by simp

section \<open>Properties of clearing\<close>

lemma denied_remove_all: "denied (remove_all d fs) = denied d"
  by (induction fs arbitrary: d) (auto simp: os_remove_def)

lemma contents_remove_all:
  "contents (remove_all d fs) p =
     (if p \<in> path ` set fs \<and> p \<notin> denied d then None else contents d p)"
proof (induction fs arbitrary: d)
  case Nil
  then show ?case by simp
next
  case (Cons f fs)
  show ?case
  proof (cases "os_remove d (path f)")
    case (Inl e)
    then have "contents d (path f) = None \<or> path f \<in> denied d"
      by (auto simp: os_remove_def split: if_splits)
    with Inl Cons.IH [of d] show ?thesis
      by auto
  next
    case (Inr d')
    then have d': "d' = d\<lparr>contents := (contents d)(path f := None)\<rparr>"
      and ok: "path f \<notin> denied d"
      by (auto simp: os_remove_def split: if_splits)
    with Inr Cons.IH [of d'] show ?thesis
      by auto
  qed
qed

text \<open>
  C4: \<open>clear_all_files\<close> leaves the store empty on every session. It ends in the rerun,
  never in an exception, and shows no message. The file of an entry is gone from the
  disk afterwards unless the operating system refuses its removal; a refused or missing
  file is passed over.
\<close>

theorem clear_all_files_empties:
  "uploaded_files (fst (clear_all_files s)) = [] \<and>
   snd (clear_all_files s) = Rerun \<and>
   ui (fst (clear_all_files s)) = ui s \<and>
   (\<forall>f \<in> set (uploaded_files s).
      path f \<notin> denied (disk s) \<longrightarrow> contents (disk (fst (clear_all_files s))) (path f) = None) \<and>
   (\<forall>f \<in> set (uploaded_files s).
      path f \<in> denied (disk s) \<longrightarrow>
        contents (disk (fst (clear_all_files s))) (path f) = contents (disk s) (path f))"
  by (simp add: clear_all_files_def contents_remove_all)

theorem clear_all_files_empties_witness:
  "uploaded_files (fst (clear_all_files guarded)) = [] \<and>
   snd (clear_all_files guarded) = Rerun \<and>
   ui (fst (clear_all_files guarded)) = ui guarded \<and>
   (entry_a \<in> set (uploaded_files guarded) \<and> path entry_a \<notin> denied (disk guarded)) \<and>
   contents (disk (fst (clear_all_files guarded))) (path entry_a) = None \<and>
   (entry_c \<in> set (uploaded_files guarded) \<and> path entry_c \<in> denied (disk guarded)) \<and>
   contents (disk (fst (clear_all_files guarded))) (path entry_c) =
     contents (disk guarded) (path entry_c)"
proof -
  have a: "entry_a \<in> set (uploaded_files guarded) \<and> path entry_a \<notin> denied (disk guarded)"
    by simp
  have c: "entry_c \<in> set (uploaded_files guarded) \<and> path entry_c \<in> denied (disk guarded)"
    by simp
  note all = clear_all_files_empties [of guarded]
  from all have "uploaded_files (fst (clear_all_files guarded)) = [] \<and>
      snd (clear_all_files guarded) = Rerun \<and>
      ui (fst (clear_all_files guarded)) = ui guarded"
    by blast
  moreover from all a
  have "contents (disk (fst (clear_all_files guarded))) (path entry_a) = None"
    by blast
  moreover from all c
  have "contents (disk (fst (clear_all_files guarded))) (path entry_c) =
      contents (disk guarded) (path entry_c)"
    by blast
  ultimately show ?thesis
    using a c by blast
qed

section \<open>Properties of deleting\<close>

lemma position_valid:
  "0 \<le> i \<Longrightarrow> i < int (length xs) \<Longrightarrow> position xs i = Inr (nat i)"
  by (simp add: position_def Let_def)

lemma position_error:
  "position xs i = Inl e \<longleftrightarrow> (i < - int (length xs) \<or> int (length xs) \<le> i) \<and> e = IndexError"
  by (auto simp: position_def Let_def)

lemma position_in_range: "position xs i = Inr j \<Longrightarrow> j < length xs"
  by (auto simp: position_def Let_def split: if_splits)

lemma delete_file_at:
  assumes "position (uploaded_files s) i = Inr j"
  shows "uploaded_files (fst (delete_file s i)) = pop (uploaded_files s) j"
    and "snd (delete_file s i) = Rerun"
  using assms by (auto simp: delete_file_def Let_def split: sum.splits)

lemma length_pop: "j < length xs \<Longrightarrow> length (pop xs j) = length xs - 1"
  by (simp add: pop_def)

lemma nth_pop_before: "k < j \<Longrightarrow> j < length xs \<Longrightarrow> pop xs j ! k = xs ! k"
  by (simp add: pop_def nth_append)

lemma nth_pop_after:
  "j \<le> k \<Longrightarrow> Suc k < length xs \<Longrightarrow> pop xs j ! k = xs ! Suc k"
  by (simp add: pop_def nth_append min_def)

text \<open>
  C2: for an index \<open>i\<close> with \<open>0 \<le> i < n\<close>, \<open>delete_file\<close> removes entry \<open>i\<close> and no
  other: the store has length \<open>n - 1\<close>, the entries before \<open>i\<close> keep their positions and
  the entries after it move down by one. This holds whatever \<open>os.remove\<close> does: when it
  succeeds the disk is the one without the file and a success message is shown, when it
  fails the disk is unchanged and the error is shown.
\<close>

theorem delete_file_removes_entry:
  assumes "0 \<le> i" and "i < int (length (uploaded_files s))"
  shows "length (uploaded_files (fst (delete_file s i))) = length (uploaded_files s) - 1 \<and>
    (\<forall>k. k < nat i \<longrightarrow> uploaded_files (fst (delete_file s i)) ! k = uploaded_files s ! k) \<and>
    (\<forall>k. nat i \<le> k \<and> Suc k < length (uploaded_files s) \<longrightarrow>
       uploaded_files (fst (delete_file s i)) ! k = uploaded_files s ! Suc k) \<and>
    (case os_remove (disk s) (path (uploaded_files s ! nat i)) of
       Inr d \<Rightarrow> disk (fst (delete_file s i)) = d \<and>
         ui (fst (delete_file s i)) =
           ui s @ [Success (''Deleted '' @ name (uploaded_files s ! nat i))]
     | Inl e \<Rightarrow> disk (fst (delete_file s i)) = disk s \<and>
         ui (fst (delete_file s i)) = ui s @ [Error e])"
proof -
  from assms have pos: "position (uploaded_files s) i = Inr (nat i)"
    by (rule position_valid)
  from assms have j: "nat i < length (uploaded_files s)"
    by linarith
  have files: "uploaded_files (fst (delete_file s i)) = pop (uploaded_files s) (nat i)"
    using pos by (rule delete_file_at)
  have "length (uploaded_files (fst (delete_file s i))) = length (uploaded_files s) - 1"
    using files j by (simp add: length_pop)
  moreover have "\<forall>k. k < nat i \<longrightarrow>
      uploaded_files (fst (delete_file s i)) ! k = uploaded_files s ! k"
    using files j by (simp add: nth_pop_before)
  moreover have "\<forall>k. nat i \<le> k \<and> Suc k < length (uploaded_files s) \<longrightarrow>
      uploaded_files (fst (delete_file s i)) ! k = uploaded_files s ! Suc k"
    using files by (simp add: nth_pop_after)
  moreover have "case os_remove (disk s) (path (uploaded_files s ! nat i)) of
       Inr d \<Rightarrow> disk (fst (delete_file s i)) = d \<and>
         ui (fst (delete_file s i)) =
           ui s @ [Success (''Deleted '' @ name (uploaded_files s ! nat i))]
     | Inl e \<Rightarrow> disk (fst (delete_file s i)) = disk s \<and>
         ui (fst (delete_file s i)) = ui s @ [Error e]"
    using pos by (simp add: delete_file_def Let_def split: sum.splits)
  ultimately show ?thesis
    by blast
qed

theorem delete_file_removes_entry_witness:
  "(0::int) \<le> 0 \<and> (0::int) < int (length (uploaded_files orphaned)) \<and>
   os_remove (disk orphaned) (path (uploaded_files orphaned ! nat 0)) =
     Inl (FileNotFoundError ''uploads/a.pdf'') \<and>
   length (uploaded_files (fst (delete_file orphaned 0))) = 1 \<and>
   uploaded_files (fst (delete_file orphaned 0)) ! 0 = entry_b \<and>
   ui (fst (delete_file orphaned 0)) = [Error (FileNotFoundError ''uploads/a.pdf'')]"
  using delete_file_removes_entry [of 0 orphaned]
  by (simp add: os_remove_def)

text \<open>
  C9: for an index \<open>i\<close> with \<open>0 \<le> i < n\<close> the lookup is at position \<open>i\<close> of the list, and
  \<open>delete_file\<close> ends in the rerun with entry \<open>i\<close> removed. It raises exactly when the
  index is below \<open>-n\<close> or at least \<open>n\<close>, the exception is \<open>IndexError\<close>, and the session
  is then unchanged. (An index from \<open>-n\<close> to \<open>-1\<close> counts from the end of the list, as
  everywhere in Python.)
\<close>

theorem delete_file_index:
  "(0 \<le> i \<and> i < int (length (uploaded_files s)) \<longrightarrow>
      position (uploaded_files s) i = Inr (nat i) \<and> nat i < length (uploaded_files s) \<and>
      snd (delete_file s i) = Rerun \<and>
      uploaded_files (fst (delete_file s i)) = pop (uploaded_files s) (nat i)) \<and>
   (snd (delete_file s i) = Raise e \<longleftrightarrow>
      (i < - int (length (uploaded_files s)) \<or> int (length (uploaded_files s)) \<le> i) \<and>
      e = IndexError) \<and>
   (i < - int (length (uploaded_files s)) \<or> int (length (uploaded_files s)) \<le> i \<longrightarrow>
      delete_file s i = (s, Raise IndexError))"
proof (intro conjI impI)
  assume valid: "0 \<le> i \<and> i < int (length (uploaded_files s))"
  then show pos: "position (uploaded_files s) i = Inr (nat i)"
    by (simp add: position_valid)
  from valid show "nat i < length (uploaded_files s)"
    by linarith
  from pos show "snd (delete_file s i) = Rerun"
    by (rule delete_file_at)
  from pos show "uploaded_files (fst (delete_file s i)) = pop (uploaded_files s) (nat i)"
    by (rule delete_file_at)
next
  show "snd (delete_file s i) = Raise e \<longleftrightarrow>
      (i < - int (length (uploaded_files s)) \<or> int (length (uploaded_files s)) \<le> i) \<and>
      e = IndexError"
    by (cases "position (uploaded_files s) i")
      (auto simp: delete_file_def Let_def position_error position_def split: if_splits)
next
  assume "i < - int (length (uploaded_files s)) \<or> int (length (uploaded_files s)) \<le> i"
  then have "position (uploaded_files s) i = Inl IndexError"
    by (simp add: position_error)
  then show "delete_file s i = (s, Raise IndexError)"
    by (simp add: delete_file_def)
qed

theorem delete_file_index_witness:
  "((0::int) \<le> 1 \<and> (1::int) < int (length (uploaded_files orphaned))) \<and>
   position (uploaded_files orphaned) 1 = Inr (nat 1) \<and>
   snd (delete_file orphaned 1) = Rerun \<and>
   uploaded_files (fst (delete_file orphaned 1)) = [entry_a] \<and>
   int (length (uploaded_files orphaned)) \<le> 2 \<and>
   delete_file orphaned 2 = (orphaned, Raise IndexError)"
  using delete_file_index [of 1 orphaned] delete_file_index [of 2 orphaned]
  by (simp add: pop_def)

section \<open>Properties of paths and of writing\<close>

lemma split_slash_plain: "CHR ''/'' \<notin> set n \<Longrightarrow> split_slash n = [n]"
  by (induction n) auto

lemma path_root_plain: "CHR ''/'' \<notin> set n \<Longrightarrow> path_root n = []"
  by (cases n) (auto simp: path_root_def)

lemma upload_path_plain:
  assumes "CHR ''/'' \<notin> set n" and "n \<noteq> []" and "n \<noteq> ''.''"
  shows "upload_path n = ''uploads/'' @ n"
proof -
  have "path_parts n = [n]"
    using assms by (simp add: path_parts_def split_slash_plain)
  moreover have "path_parts UPLOAD_DIR = [''uploads'']"
    by (simp add: path_parts_def UPLOAD_DIR_def)
  ultimately show ?thesis
    using assms(1) by (simp add: upload_path_def path_join_def path_root_plain)
qed

lemma write_file_written:
  "write_file d p bs = Inr d' \<Longrightarrow> d' = d\<lparr>contents := (contents d)(p \<mapsto> bs)\<rparr>"
  by (auto simp: write_file_def split: option.splits if_splits)

lemma write_file_contents: "write_file d p bs = Inr d' \<Longrightarrow> contents d' p = Some bs"
  by (auto dest: write_file_written)

lemmas path_eval = upload_path_def path_join_def path_root_def path_parts_def UPLOAD_DIR_def

lemmas write_eval = write_file_def ancestors_def upt_rec path_eval

section \<open>Properties of uploading\<close>

lemma upload_loop_skip:
  "up_name f \<in> name ` set (uploaded_files s) \<Longrightarrow>
     upload_loop s a (f # rest) = upload_loop s a rest"
  by simp

lemma upload_loop_add:
  "up_name f \<notin> name ` set (uploaded_files s) \<Longrightarrow>
   write_file (disk s) (upload_path (up_name f)) (read f) = Inr d \<Longrightarrow>
     upload_loop s a (f # rest) =
       upload_loop (s\<lparr>disk := d, uploaded_files := uploaded_files s @ [new_entry f]\<rparr>) True rest"
  by simp

lemma upload_loop_raise:
  "up_name f \<notin> name ` set (uploaded_files s) \<Longrightarrow>
   write_file (disk s) (upload_path (up_name f)) (read f) = Inl e \<Longrightarrow>
     upload_loop s a (f # rest) = (s, Inl e)"
  by simp

declare upload_loop.simps(2) [simp del]

lemma upload_loop_present:
  "up_name ` set files \<subseteq> name ` set (uploaded_files s) \<Longrightarrow>
     upload_loop s a files = (s, Inr a)"
  by (induction files) (simp_all add: upload_loop_skip)

lemma process_uploads_session:
  "uploaded_files (fst (process_uploads s files)) = uploaded_files (fst (upload_loop s False files))"
  "disk (fst (process_uploads s files)) = disk (fst (upload_loop s False files))"
  by (auto simp: process_uploads_def split: prod.splits sum.splits)

lemma upload_loop_distinct:
  "distinct (map name (uploaded_files s)) \<Longrightarrow>
     distinct (map name (uploaded_files (fst (upload_loop s a files))))"
proof (induction files arbitrary: s a)
  case Nil
  then show ?case by simp
next
  case (Cons f rest)
  show ?case
  proof (cases "up_name f \<in> name ` set (uploaded_files s)")
    case True
    with Cons show ?thesis by (simp add: upload_loop_skip)
  next
    case new: False
    show ?thesis
    proof (cases "write_file (disk s) (upload_path (up_name f)) (read f)")
      case (Inl e)
      with new Cons.prems show ?thesis
        by (simp add: upload_loop_raise)
    next
      case (Inr d)
      have "distinct (map name (uploaded_files s @ [new_entry f]))"
        using new Cons.prems by (auto simp: new_entry_def)
      then show ?thesis
        using new Inr Cons.IH by (simp add: upload_loop_add)
    qed
  qed
qed

lemma new_entry_fields:
  "name (new_entry f) = up_name f"
  "path (new_entry f) = upload_path (up_name f)"
  "ftype (new_entry f) = up_type f"
  "fsize (new_entry f) = (case getvalue f of Some v \<Rightarrow> int (length v) | None \<Rightarrow> 0)"
  by (simp_all add: new_entry_def)

lemma process_uploads_present:
  "up_name ` set files \<subseteq> name ` set (uploaded_files s) \<Longrightarrow>
     process_uploads s files = (s, Return False)"
  by (simp add: process_uploads_def upload_loop_present)

lemma process_uploads_raise:
  assumes "up_name f \<notin> name ` set (uploaded_files s)"
    and "write_file (disk s) (upload_path (up_name f)) (read f) = Inl e"
  shows "process_uploads s (f # rest) = (s, Raise e)"
  using assms by (simp add: process_uploads_def upload_loop_raise)

lemma upload_loop_append:
  "upload_loop s a (xs @ ys) =
     (case upload_loop s a xs of
        (s', Inl e) \<Rightarrow> (s', Inl e)
      | (s', Inr a') \<Rightarrow> upload_loop s' a' ys)"
proof (induction xs arbitrary: s a)
  case Nil
  show ?case by simp
next
  case (Cons f rest)
  show ?case
  proof (cases "up_name f \<in> name ` set (uploaded_files s)")
    case True
    with Cons.IH [of s a] show ?thesis
      by (simp add: upload_loop_skip)
  next
    case new: False
    show ?thesis
    proof (cases "write_file (disk s) (upload_path (up_name f)) (read f)")
      case (Inl e)
      with new show ?thesis
        by (simp add: upload_loop_raise)
    next
      case (Inr d)
      with new Cons.IH show ?thesis
        by (simp add: upload_loop_add)
    qed
  qed
qed

lemma same_name_batch:
  assumes "\<forall>g \<in> set rest. up_name g = up_name f"
    and "write_file d (upload_path (up_name f)) (read f) = Inr d'"
  shows "process_uploads (initial d) (f # rest) =
    (\<lparr>uploaded_files = [new_entry f], disk = d', ui = [UploadedBanner]\<rparr>, Rerun)"
proof -
  let ?s = "(initial d)\<lparr>disk := d', uploaded_files := uploaded_files (initial d) @ [new_entry f]\<rparr>"
  have "upload_loop (initial d) False (f # rest) = upload_loop ?s True rest"
    using assms(2) by (intro upload_loop_add) (simp_all add: initial_def)
  moreover have "up_name ` set rest \<subseteq> name ` set (uploaded_files ?s)"
    using assms(1) by (auto simp: new_entry_fields)
  then have "upload_loop ?s True rest = (?s, Inr True)"
    by (rule upload_loop_present)
  ultimately show ?thesis
    by (simp add: process_uploads_def initial_def)
qed

text \<open>
  C1, as amended: \<open>process_uploads\<close> goes through the batch in order. An item whose
  name is among the names of the store is skipped: the loop goes on with the same
  session and flag, and a batch of that item alone returns with the session unchanged.
  For any other item the file \<open>UPLOAD_DIR / name\<close> is opened and written. When that
  succeeds, the file holds the bytes of the item, the entry with its name, that path,
  its type and its size is appended, and the loop goes on from there. When it raises,
  the exception leaves \<open>process_uploads\<close> with the session as it is: that item and the
  rest of the batch are not added. For a plain file name the path is \<open>uploads/name\<close>. A
  batch \<open>xs @ ys\<close> is handled as \<open>xs\<close> and then \<open>ys\<close> from the session \<open>xs\<close> has left, and
  the session \<open>process_uploads\<close> leaves is the one its loop leaves. So a batch of items
  that all have one name, uploaded to an empty store, adds the first item only, and the
  store has length 1, when the first write succeeds; when it raises, the store stays
  empty.
\<close>

theorem process_uploads_in_order:
  "(up_name f \<in> name ` set (uploaded_files s) \<longrightarrow>
      upload_loop s a (f # rest) = upload_loop s a rest \<and>
      process_uploads s [f] = (s, Return False)) \<and>
   (up_name f \<notin> name ` set (uploaded_files s) \<longrightarrow>
      (case write_file (disk s) (upload_path (up_name f)) (read f) of
         Inr d' \<Rightarrow>
           upload_loop s a (f # rest) =
             upload_loop
               (s\<lparr>disk := d', uploaded_files := uploaded_files s @ [new_entry f]\<rparr>) True rest \<and>
           d' = (disk s)\<lparr>contents :=
                  (contents (disk s))(upload_path (up_name f) \<mapsto> read f)\<rparr> \<and>
           contents d' (upload_path (up_name f)) = Some (read f)
       | Inl e \<Rightarrow>
           upload_loop s a (f # rest) = (s, Inl e) \<and>
           process_uploads s (f # rest) = (s, Raise e))) \<and>
   new_entry f =
     \<lparr>name = up_name f, path = upload_path (up_name f), ftype = up_type f,
      fsize = (case getvalue f of Some v \<Rightarrow> int (length v) | None \<Rightarrow> 0)\<rparr> \<and>
   (CHR ''/'' \<notin> set n \<and> n \<noteq> [] \<and> n \<noteq> ''.'' \<longrightarrow> upload_path n = ''uploads/'' @ n) \<and>
   upload_loop s a [] = (s, Inr a) \<and>
   upload_loop s a (xs @ ys) =
     (case upload_loop s a xs of
        (s', Inl e) \<Rightarrow> (s', Inl e)
      | (s', Inr a') \<Rightarrow> upload_loop s' a' ys) \<and>
   uploaded_files (fst (process_uploads s files)) =
     uploaded_files (fst (upload_loop s False files)) \<and>
   disk (fst (process_uploads s files)) = disk (fst (upload_loop s False files)) \<and>
   ((\<forall>g \<in> set rest. up_name g = up_name f) \<longrightarrow>
      (case write_file d (upload_path (up_name f)) (read f) of
         Inr d' \<Rightarrow>
           uploaded_files (fst (process_uploads (initial d) (f # rest))) = [new_entry f] \<and>
           length (uploaded_files (fst (process_uploads (initial d) (f # rest)))) = 1
       | Inl e \<Rightarrow> process_uploads (initial d) (f # rest) = (initial d, Raise e)))"
proof (intro conjI impI)
  assume present: "up_name f \<in> name ` set (uploaded_files s)"
  then show "upload_loop s a (f # rest) = upload_loop s a rest"
    by (rule upload_loop_skip)
  from present show "process_uploads s [f] = (s, Return False)"
    by (intro process_uploads_present) simp
next
  assume new: "up_name f \<notin> name ` set (uploaded_files s)"
  show "case write_file (disk s) (upload_path (up_name f)) (read f) of
         Inr d' \<Rightarrow>
           upload_loop s a (f # rest) =
             upload_loop
               (s\<lparr>disk := d', uploaded_files := uploaded_files s @ [new_entry f]\<rparr>) True rest \<and>
           d' = (disk s)\<lparr>contents :=
                  (contents (disk s))(upload_path (up_name f) \<mapsto> read f)\<rparr> \<and>
           contents d' (upload_path (up_name f)) = Some (read f)
       | Inl e \<Rightarrow>
           upload_loop s a (f # rest) = (s, Inl e) \<and>
           process_uploads s (f # rest) = (s, Raise e)"
  proof (cases "write_file (disk s) (upload_path (up_name f)) (read f)")
    case (Inl e)
    with new show ?thesis
      by (simp add: upload_loop_raise process_uploads_raise)
  next
    case (Inr d')
    with new have "upload_loop s a (f # rest) =
        upload_loop (s\<lparr>disk := d', uploaded_files := uploaded_files s @ [new_entry f]\<rparr>) True rest"
      by (simp add: upload_loop_add)
    moreover from Inr have "d' = (disk s)\<lparr>contents :=
        (contents (disk s))(upload_path (up_name f) \<mapsto> read f)\<rparr>"
      by (rule write_file_written)
    moreover from Inr have "contents d' (upload_path (up_name f)) = Some (read f)"
      by (rule write_file_contents)
    ultimately show ?thesis
      using Inr by simp
  qed
next
  show "new_entry f =
     \<lparr>name = up_name f, path = upload_path (up_name f), ftype = up_type f,
      fsize = (case getvalue f of Some v \<Rightarrow> int (length v) | None \<Rightarrow> 0)\<rparr>"
    by (simp add: new_entry_def)
next
  assume "CHR ''/'' \<notin> set n \<and> n \<noteq> [] \<and> n \<noteq> ''.''"
  then show "upload_path n = ''uploads/'' @ n"
    by (intro upload_path_plain) simp_all
next
  show "upload_loop s a [] = (s, Inr a)"
    by simp
next
  show "upload_loop s a (xs @ ys) =
     (case upload_loop s a xs of
        (s', Inl e) \<Rightarrow> (s', Inl e)
      | (s', Inr a') \<Rightarrow> upload_loop s' a' ys)"
    by (rule upload_loop_append)
next
  show "uploaded_files (fst (process_uploads s files)) =
      uploaded_files (fst (upload_loop s False files))"
    by (rule process_uploads_session)
next
  show "disk (fst (process_uploads s files)) = disk (fst (upload_loop s False files))"
    by (rule process_uploads_session)
next
  assume same: "\<forall>g \<in> set rest. up_name g = up_name f"
  show "case write_file d (upload_path (up_name f)) (read f) of
         Inr d' \<Rightarrow>
           uploaded_files (fst (process_uploads (initial d) (f # rest))) = [new_entry f] \<and>
           length (uploaded_files (fst (process_uploads (initial d) (f # rest)))) = 1
       | Inl e \<Rightarrow> process_uploads (initial d) (f # rest) = (initial d, Raise e)"
  proof (cases "write_file d (upload_path (up_name f)) (read f)")
    case (Inl e)
    then have "process_uploads (initial d) (f # rest) = (initial d, Raise e)"
      by (intro process_uploads_raise) (simp_all add: initial_def)
    with Inl show ?thesis
      by simp
  next
    case (Inr d')
    with same show ?thesis
      by (simp add: same_name_batch)
  qed
qed

theorem process_uploads_in_order_witness:
  "(up_name pdf_a_again \<in> name ` set (uploaded_files
      ((initial fresh_disk)\<lparr>uploaded_files := [new_entry pdf_a]\<rparr>)) \<and>
    process_uploads ((initial fresh_disk)\<lparr>uploaded_files := [new_entry pdf_a]\<rparr>) [pdf_a_again] =
      ((initial fresh_disk)\<lparr>uploaded_files := [new_entry pdf_a]\<rparr>, Return False)) \<and>
   (up_name pptx_b \<notin> name ` set (uploaded_files (initial fresh_disk)) \<and>
    write_file (disk (initial fresh_disk)) (upload_path (up_name pptx_b)) (read pptx_b) =
      Inr (fresh_disk\<lparr>contents := [''uploads/b.pptx'' \<mapsto> [7, 8]]\<rparr>) \<and>
    upload_loop (initial fresh_disk) False [pptx_b] =
      ((initial fresh_disk)
         \<lparr>disk := fresh_disk\<lparr>contents := [''uploads/b.pptx'' \<mapsto> [7, 8]]\<rparr>,
          uploaded_files := [entry_b]\<rparr>, Inr True)) \<and>
   (up_name pdf_a \<notin> name ` set (uploaded_files (initial locked_disk)) \<and>
    write_file (disk (initial locked_disk)) (upload_path (up_name pdf_a)) (read pdf_a) =
      Inl (PermissionError ''uploads/a.pdf'') \<and>
    process_uploads (initial locked_disk) [pdf_a, pptx_b] =
      (initial locked_disk, Raise (PermissionError ''uploads/a.pdf''))) \<and>
   new_entry pptx_b = entry_b \<and>
   upload_path ''b.pptx'' = ''uploads/b.pptx'' \<and>
   (up_name pdf_a_again = up_name pdf_a \<and>
    write_file fresh_disk (upload_path (up_name pdf_a)) (read pdf_a) =
      Inr (fresh_disk\<lparr>contents := [''uploads/a.pdf'' \<mapsto> [1, 2, 3]]\<rparr>) \<and>
    uploaded_files (fst (process_uploads (initial fresh_disk) [pdf_a, pdf_a_again])) = [entry_a] \<and>
    length (uploaded_files (fst (process_uploads (initial fresh_disk) [pdf_a, pdf_a_again]))) = 1)"
proof -
  let ?s = "(initial fresh_disk)\<lparr>uploaded_files := [new_entry pdf_a]\<rparr>"
  let ?db = "fresh_disk\<lparr>contents := [''uploads/b.pptx'' \<mapsto> [7, 8]]\<rparr>"
  let ?da = "fresh_disk\<lparr>contents := [''uploads/a.pdf'' \<mapsto> [1, 2, 3]]\<rparr>"
  have present: "up_name pdf_a_again \<in> name ` set (uploaded_files ?s)"
    by (simp add: new_entry_def)
  from present
    process_uploads_in_order [where f = pdf_a_again and s = ?s and a = False and rest = "[]"]
  have skip: "process_uploads ?s [pdf_a_again] = (?s, Return False)"
    by blast
  have plain: "CHR ''/'' \<notin> set ''b.pptx'' \<and> ''b.pptx'' \<noteq> [] \<and> ''b.pptx'' \<noteq> ''.''"
    by simp
  from plain process_uploads_in_order [where n = "''b.pptx''"]
  have pb: "upload_path ''b.pptx'' = ''uploads/'' @ ''b.pptx''"
    by blast
  from process_uploads_in_order [where f = pptx_b]
  have "new_entry pptx_b =
     \<lparr>name = up_name pptx_b, path = upload_path (up_name pptx_b), ftype = up_type pptx_b,
      fsize = (case getvalue pptx_b of Some v \<Rightarrow> int (length v) | None \<Rightarrow> 0)\<rparr>"
    by blast
  with pb have eb: "new_entry pptx_b = entry_b"
    by simp
  have newb: "up_name pptx_b \<notin> name ` set (uploaded_files (initial fresh_disk))"
    by (simp add: initial_def)
  have wb: "write_file (disk (initial fresh_disk)) (upload_path (up_name pptx_b)) (read pptx_b) =
      Inr ?db"
    by (simp add: initial_def pb) (simp add: write_file_def ancestors_def upt_rec)
  from newb
    process_uploads_in_order [where f = pptx_b and s = "initial fresh_disk" and a = False
      and rest = "[]"]
  have "case write_file (disk (initial fresh_disk)) (upload_path (up_name pptx_b)) (read pptx_b) of
         Inr d' \<Rightarrow>
           upload_loop (initial fresh_disk) False [pptx_b] =
             upload_loop
               ((initial fresh_disk)\<lparr>disk := d', uploaded_files :=
                  uploaded_files (initial fresh_disk) @ [new_entry pptx_b]\<rparr>) True [] \<and>
           d' = (disk (initial fresh_disk))\<lparr>contents :=
                  (contents (disk (initial fresh_disk)))
                    (upload_path (up_name pptx_b) \<mapsto> read pptx_b)\<rparr> \<and>
           contents d' (upload_path (up_name pptx_b)) = Some (read pptx_b)
       | Inl e \<Rightarrow>
           upload_loop (initial fresh_disk) False [pptx_b] = (initial fresh_disk, Inl e) \<and>
           process_uploads (initial fresh_disk) [pptx_b] = (initial fresh_disk, Raise e)"
    by blast
  then have "upload_loop (initial fresh_disk) False [pptx_b] =
      upload_loop
        ((initial fresh_disk)\<lparr>disk := ?db, uploaded_files :=
           uploaded_files (initial fresh_disk) @ [new_entry pptx_b]\<rparr>) True []"
    by (simp only: wb sum.case)
  then have addb: "upload_loop (initial fresh_disk) False [pptx_b] =
      ((initial fresh_disk)\<lparr>disk := ?db, uploaded_files := [entry_b]\<rparr>, Inr True)"
    by (simp add: eb initial_def)
  have newa: "up_name pdf_a \<notin> name ` set (uploaded_files (initial locked_disk))"
    by (simp add: initial_def)
  have wa: "write_file (disk (initial locked_disk)) (upload_path (up_name pdf_a)) (read pdf_a) =
      Inl (PermissionError ''uploads/a.pdf'')"
    by (simp add: initial_def write_eval)
  from newa
    process_uploads_in_order [where f = pdf_a and s = "initial locked_disk" and a = False
      and rest = "[pptx_b]"]
  have "case write_file (disk (initial locked_disk)) (upload_path (up_name pdf_a)) (read pdf_a) of
         Inr d' \<Rightarrow>
           upload_loop (initial locked_disk) False [pdf_a, pptx_b] =
             upload_loop
               ((initial locked_disk)\<lparr>disk := d', uploaded_files :=
                  uploaded_files (initial locked_disk) @ [new_entry pdf_a]\<rparr>) True [pptx_b] \<and>
           d' = (disk (initial locked_disk))\<lparr>contents :=
                  (contents (disk (initial locked_disk)))
                    (upload_path (up_name pdf_a) \<mapsto> read pdf_a)\<rparr> \<and>
           contents d' (upload_path (up_name pdf_a)) = Some (read pdf_a)
       | Inl e \<Rightarrow>
           upload_loop (initial locked_disk) False [pdf_a, pptx_b] = (initial locked_disk, Inl e) \<and>
           process_uploads (initial locked_disk) [pdf_a, pptx_b] = (initial locked_disk, Raise e)"
    by blast
  then have refused: "process_uploads (initial locked_disk) [pdf_a, pptx_b] =
      (initial locked_disk, Raise (PermissionError ''uploads/a.pdf''))"
    by (simp only: wa sum.case)
  have ws: "write_file fresh_disk (upload_path (up_name pdf_a)) (read pdf_a) = Inr ?da"
    by (simp add: write_eval)
  have same: "\<forall>g \<in> set [pdf_a_again]. up_name g = up_name pdf_a"
    by simp
  from same
    process_uploads_in_order [where f = pdf_a and rest = "[pdf_a_again]" and d = fresh_disk]
  have "case write_file fresh_disk (upload_path (up_name pdf_a)) (read pdf_a) of
         Inr d' \<Rightarrow>
           uploaded_files (fst (process_uploads (initial fresh_disk) [pdf_a, pdf_a_again])) =
             [new_entry pdf_a] \<and>
           length (uploaded_files (fst (process_uploads (initial fresh_disk) [pdf_a, pdf_a_again])))
             = 1
       | Inl e \<Rightarrow>
           process_uploads (initial fresh_disk) [pdf_a, pdf_a_again] = (initial fresh_disk, Raise e)"
    by blast
  note this [unfolded ws]
  then have "uploaded_files (fst (process_uploads (initial fresh_disk) [pdf_a, pdf_a_again])) =
        [new_entry pdf_a] \<and>
      length (uploaded_files (fst (process_uploads (initial fresh_disk) [pdf_a, pdf_a_again]))) = 1"
    by simp
  moreover have "new_entry pdf_a = entry_a"
    by (simp add: new_entry_def path_eval)
  ultimately have one:
    "uploaded_files (fst (process_uploads (initial fresh_disk) [pdf_a, pdf_a_again])) = [entry_a] \<and>
     length (uploaded_files (fst (process_uploads (initial fresh_disk) [pdf_a, pdf_a_again]))) = 1"
    by simp
  have pb': "upload_path ''b.pptx'' = ''uploads/b.pptx''"
    using pb by simp
  have names: "up_name pdf_a_again = up_name pdf_a"
    by simp
  note one1 = one [THEN conjunct1] and one2 = one [THEN conjunct2]
  from present skip newb wb addb newa wa refused eb pb' names ws one1 one2 show ?thesis
    by (intro conjI) (assumption+)
qed

text \<open>
  C1 as stated fails when the write raises. On a disk where the operating system
  refuses to write \<open>uploads/a.pdf\<close>, the batch of \<open>a.pdf\<close> and \<open>b.pptx\<close>, neither of them in
  the store, ends in the exception: no bytes are written, no entry is appended, and the
  second item is not looked at.
\<close>

theorem process_uploads_refused_counterexample:
  "up_name pdf_a \<notin> name ` set (uploaded_files (initial locked_disk)) \<and>
   up_name pptx_b \<notin> name ` set (uploaded_files (initial locked_disk)) \<and>
   snd (process_uploads (initial locked_disk) [pdf_a, pptx_b]) =
     Raise (PermissionError ''uploads/a.pdf'') \<and>
   uploaded_files (fst (process_uploads (initial locked_disk) [pdf_a, pptx_b])) = [] \<and>
   contents (disk (fst (process_uploads (initial locked_disk) [pdf_a, pptx_b]))) ''uploads/a.pdf''
     = None \<and>
   contents (disk (fst (process_uploads (initial locked_disk) [pdf_a, pptx_b]))) ''uploads/b.pptx''
     = None"
  by (simp add: process_uploads_def upload_loop.simps initial_def write_eval Let_def)








lemma upload_loop_added:
  "\<exists>added.
     uploaded_files (fst (upload_loop s a files)) = uploaded_files s @ map new_entry added \<and>
     set added \<subseteq> set files"
proof (induction files arbitrary: s a)
  case Nil
  show ?case
    by (intro exI [of _ "[]"]) simp
next
  case (Cons f rest)
  show ?case
  proof (cases "up_name f \<in> name ` set (uploaded_files s)")
    case True
    then have "upload_loop s a (f # rest) = upload_loop s a rest"
      by (rule upload_loop_skip)
    with Cons.IH [of s a] show ?thesis
      by auto
  next
    case new: False
    show ?thesis
    proof (cases "write_file (disk s) (upload_path (up_name f)) (read f)")
      case (Inl e)
      with new have "upload_loop s a (f # rest) = (s, Inl e)"
        by (rule upload_loop_raise)
      then show ?thesis
        by (intro exI [of _ "[]"]) simp
    next
      case (Inr d)
      let ?s = "s\<lparr>disk := d, uploaded_files := uploaded_files s @ [new_entry f]\<rparr>"
      have step: "upload_loop s a (f # rest) = upload_loop ?s True rest"
        using new Inr by (rule upload_loop_add)
      from Cons.IH [of ?s True] obtain added where
        "uploaded_files (fst (upload_loop ?s True rest)) =
          uploaded_files ?s @ map new_entry added" and "set added \<subseteq> set rest"
        by blast
      then have "uploaded_files (fst (upload_loop ?s True rest)) =
          uploaded_files s @ map new_entry (f # added) \<and> set (f # added) \<subseteq> set (f # rest)"
        by auto
      then show ?thesis
        unfolding step by (rule exI)
    qed
  qed
qed

text \<open>
  C8: for the uploads \<open>st.file_uploader\<close> hands over, whose \<open>getvalue()\<close> returns the
  bytes \<open>read()\<close> returns, every entry that \<open>process_uploads\<close> adds comes from an item of
  the batch and its size is the number of bytes of that item. At the time of the upload
  these are the bytes written: the step that appends the entry leaves the disk with
  exactly these bytes at the path of the entry.
\<close>

theorem process_uploads_sizes:
  "((\<forall>f \<in> set files. getvalue f = Some (read f)) \<longrightarrow>
      (\<forall>e \<in> set (drop (length (uploaded_files s))
                 (uploaded_files (fst (process_uploads s files)))).
         \<exists>f \<in> set files. e = new_entry f \<and> fsize e = int (length (read f)))) \<and>
   (getvalue f = Some (read f) \<and> up_name f \<notin> name ` set (uploaded_files s) \<and>
    write_file (disk s) (upload_path (up_name f)) (read f) = Inr d \<longrightarrow>
      upload_loop s a (f # rest) =
        upload_loop (s\<lparr>disk := d, uploaded_files := uploaded_files s @ [new_entry f]\<rparr>) True rest \<and>
      fsize (new_entry f) = int (length (read f)) \<and>
      d = (disk s)\<lparr>contents := (contents (disk s))(path (new_entry f) \<mapsto> read f)\<rparr> \<and>
      contents d (path (new_entry f)) = Some (read f))"
proof (intro conjI impI ballI)
  fix e
  assume genuine: "\<forall>f \<in> set files. getvalue f = Some (read f)"
  assume e: "e \<in> set (drop (length (uploaded_files s))
      (uploaded_files (fst (process_uploads s files))))"
  from upload_loop_added [of s False files] obtain added where
    files: "uploaded_files (fst (upload_loop s False files)) =
      uploaded_files s @ map new_entry added" and
    sub: "set added \<subseteq> set files"
    by blast
  from e files have "e \<in> new_entry ` set added"
    by (simp add: process_uploads_session)
  then obtain f where f: "f \<in> set added" and ef: "e = new_entry f"
    by blast
  from f sub have "f \<in> set files"
    by blast
  moreover from this genuine have "fsize (new_entry f) = int (length (read f))"
    by (simp add: new_entry_fields)
  ultimately show "\<exists>f \<in> set files. e = new_entry f \<and> fsize e = int (length (read f))"
    using ef by blast
next
  assume step: "getvalue f = Some (read f) \<and> up_name f \<notin> name ` set (uploaded_files s) \<and>
    write_file (disk s) (upload_path (up_name f)) (read f) = Inr d"
  then show "upload_loop s a (f # rest) =
      upload_loop (s\<lparr>disk := d, uploaded_files := uploaded_files s @ [new_entry f]\<rparr>) True rest"
    by (simp add: upload_loop_add)
  from step show "fsize (new_entry f) = int (length (read f))"
    by (simp add: new_entry_fields)
  from step show "d = (disk s)\<lparr>contents := (contents (disk s))(path (new_entry f) \<mapsto> read f)\<rparr>"
    by (auto simp: new_entry_fields dest: write_file_written)
  from step show "contents d (path (new_entry f)) = Some (read f)"
    by (auto simp: new_entry_fields dest: write_file_contents)
qed

theorem process_uploads_sizes_witness:
  "getvalue pptx_b = Some (read pptx_b) \<and>
   entry_b \<in> set (drop (length (uploaded_files (initial fresh_disk)))
      (uploaded_files (fst (process_uploads (initial fresh_disk) [pptx_b])))) \<and>
   fsize entry_b = int (length (read pptx_b)) \<and>
   up_name pptx_b \<notin> name ` set (uploaded_files (initial fresh_disk)) \<and>
   write_file (disk (initial fresh_disk)) (upload_path (up_name pptx_b)) (read pptx_b) =
     Inr (fresh_disk\<lparr>contents := [''uploads/b.pptx'' \<mapsto> [7, 8]]\<rparr>) \<and>
   fsize (new_entry pptx_b) = 2 \<and>
   contents (fresh_disk\<lparr>contents := [''uploads/b.pptx'' \<mapsto> [7, 8]]\<rparr>) (path (new_entry pptx_b))
     = Some [7, 8]"
proof -
  let ?d = "fresh_disk\<lparr>contents := [''uploads/b.pptx'' \<mapsto> [7, 8]]\<rparr>"
  have eb: "new_entry pptx_b = entry_b"
    by (simp add: new_entry_def path_eval)
  have gv: "getvalue pptx_b = Some (read pptx_b)"
    by simp
  then have genuine: "\<forall>f \<in> set [pptx_b]. getvalue f = Some (read f)"
    by simp
  have new: "up_name pptx_b \<notin> name ` set (uploaded_files (initial fresh_disk))"
    by (simp add: initial_def)
  have w: "write_file (disk (initial fresh_disk)) (upload_path (up_name pptx_b)) (read pptx_b) =
      Inr ?d"
    by (simp add: initial_def write_eval)
  have "process_uploads (initial fresh_disk) [pptx_b] =
      (\<lparr>uploaded_files = [new_entry pptx_b], disk = ?d, ui = [UploadedBanner]\<rparr>, Rerun)"
    using w by (intro same_name_batch) (simp_all add: initial_def)
  then have mem: "entry_b \<in> set (drop (length (uploaded_files (initial fresh_disk)))
      (uploaded_files (fst (process_uploads (initial fresh_disk) [pptx_b]))))"
    by (simp add: eb initial_def)
  note t = process_uploads_sizes [where files = "[pptx_b]" and s = "initial fresh_disk"
      and f = pptx_b and d = ?d and a = False and rest = "[]"]
  from t genuine mem
  have "\<exists>f \<in> set [pptx_b]. entry_b = new_entry f \<and> fsize entry_b = int (length (read f))"
    by blast
  then obtain g where g: "g \<in> set [pptx_b]" and sz: "fsize entry_b = int (length (read g))"
    by blast
  from g have "g = pptx_b"
    by simp
  with sz have size: "fsize entry_b = int (length (read pptx_b))"
    by simp
  from t gv new w
  have a: "fsize (new_entry pptx_b) = int (length (read pptx_b))"
    by blast
  from t gv new w
  have b: "contents ?d (path (new_entry pptx_b)) = Some (read pptx_b)"
    by blast
  have r: "int (length (read pptx_b)) = 2"
    by simp
  have r': "Some (read pptx_b) = Some [7, 8]"
    by simp
  from a r have step1: "fsize (new_entry pptx_b) = 2"
    by (rule trans)
  from b r' have step2: "contents ?d (path (new_entry pptx_b)) = Some [7, 8]"
    by (rule trans)
  from gv mem size new w step1 step2 show ?thesis
    by (intro conjI) (assumption+)
qed

section \<open>The names of the store stay distinct\<close>

lemma distinct_pop:
  assumes "distinct xs"
  shows "distinct (pop xs j)"
proof -
  have "set (drop (Suc j) xs) \<subseteq> set (drop j xs)"
    by (rule set_drop_subset_set_drop) simp
  moreover have "distinct (take j xs @ drop j xs)"
    using assms by simp
  then have "set (take j xs) \<inter> set (drop j xs) = {}"
    by (simp only: distinct_append)
  ultimately show ?thesis
    using assms by (auto simp: pop_def)
qed

lemma map_pop: "map f (pop xs j) = pop (map f xs) j"
  by (simp add: pop_def take_map drop_map)

lemma perform_unique_names: "unique_names s \<Longrightarrow> unique_names (perform s act)"
proof (cases act)
  case (AddFiles files)
  assume "unique_names s"
  then show ?thesis
    using AddFiles by (simp add: unique_names_def process_uploads_session upload_loop_distinct)
next
  case (DeleteAt index)
  assume u: "unique_names s"
  show ?thesis
  proof (cases "position (uploaded_files s) index")
    case (Inl e)
    with u DeleteAt show ?thesis
      by (simp add: delete_file_def)
  next
    case (Inr j)
    with u DeleteAt show ?thesis
      by (auto simp: unique_names_def delete_file_def Let_def map_pop distinct_pop
          split: sum.splits)
  qed
next
  case ClearAll
  then show ?thesis
    by (simp add: unique_names_def clear_all_files_def)
qed

lemma foldl_unique_names: "unique_names s \<Longrightarrow> unique_names (foldl perform s actions)"
  by (induction actions arbitrary: s) (simp_all add: perform_unique_names)

text \<open>
  C6: after any list of actions on a store that \<open>main\<close> has started empty, no two
  entries have the same name. This also holds after a further batch in which two items
  have the same name.
\<close>

theorem names_stay_unique:
  "distinct (map name (uploaded_files (run d actions))) \<and>
   distinct (map name (uploaded_files
     (fst (process_uploads (run d actions) (file # file\<lparr>read := bytes\<rparr> # rest)))))"
proof -
  have "unique_names (initial d)"
    by (simp add: unique_names_def initial_def)
  then have u: "unique_names (run d actions)"
    unfolding run_def by (rule foldl_unique_names)
  then have "unique_names (perform (run d actions) (AddFiles (file # file\<lparr>read := bytes\<rparr> # rest)))"
    by (rule perform_unique_names)
  with u show ?thesis
    by (simp add: unique_names_def)
qed

end
